theory Spec2Isabelle
  imports Complex_Main "HOL-Library.Multiset"
begin

section \<open>Battery drain predictor (src/battery\_scheduler/predictor.py)\<close>

text \<open>
  Python floats are read as real numbers: a real stands for a finite float, and the
  model follows the arithmetic the code writes and leaves rounding, infinities and NaN
  aside. The general properties proved of the predictor are therefore stated for finite
  inputs, and in forms that each rounded step of the float computation keeps (a bound, a
  sign, an order). A dictionary whose keys the
  caller may omit is a record of optional fields, read with the default the code gives
  to \<open>.get\<close>; a dictionary the code itself builds with a literal is a record of plain
  fields. Readings of the outside world (the battery sensor, the clock, the temperature)
  are arguments of the function that takes them.
\<close>

record config =
  battery_threshold_percent :: "real option"
  thermal_threshold_celsius :: "real option"

record task_description =
  compute_ops :: "real option"
  memory_mb :: "real option"
  duration_seconds :: "real option"

text \<open>What \<open>psutil.sensors_battery()\<close> yields when a battery is present.\<close>

record sensors_battery =
  sb_percent :: real
  sb_power_plugged :: bool
  sb_secsleft :: int

record battery_state =
  percent :: real
  plugged_in :: bool
  time_left :: "real option"

record prediction =
  estimated_drain_percent :: real
  estimated_time_minutes :: real
  current_battery_percent :: real
  safe_to_execute :: bool

definition extract_features :: "nat \<Rightarrow> task_description \<Rightarrow> real list" where
  "extract_features tm_hour td =
     (let compute_intensity =
            (case compute_ops td of Some c \<Rightarrow> c | None \<Rightarrow> 1000000000) / 1000000000;
          memory_usage = (case memory_mb td of Some m \<Rightarrow> m | None \<Rightarrow> 100) / 1000;
          duration_estimate = (case duration_seconds td of Some d \<Rightarrow> d | None \<Rightarrow> 1)
      in [compute_intensity, memory_usage, duration_estimate, real tm_hour / 24])"

text \<open>
  The argument is the sensor reading: \<open>None\<close> when \<open>psutil\<close> raises or reports no
  battery, and then the fixed default state is returned.
\<close>

definition get_current_battery_state :: "sensors_battery option \<Rightarrow> battery_state" where
  "get_current_battery_state battery =
     (case battery of
        Some b \<Rightarrow>
          \<lparr>percent = sb_percent b, plugged_in = sb_power_plugged b,
           time_left = (if sb_secsleft b \<noteq> - 1 then Some (real_of_int (sb_secsleft b)) else None)\<rparr>
      | None \<Rightarrow> \<lparr>percent = 80, plugged_in = False, time_left = Some 7200\<rparr>)"

definition run_prediction :: "real list \<Rightarrow> battery_state \<Rightarrow> real" where
  "run_prediction features current_state =
     (let base_drain = sum_list (take 3 features) * (5 / 10);
          base_drain = (if plugged_in current_state then base_drain * (5 / 10) else base_drain);
          current_percent = percent current_state;
          base_drain = (if current_percent < 20 then base_drain * (12 / 10) else base_drain)
      in min base_drain 10)"

text \<open>\<open>if time_left and current_percent > 0\<close>: a time left of \<open>None\<close> or of zero is false.\<close>

definition estimate_time_impact :: "real \<Rightarrow> battery_state \<Rightarrow> real" where
  "estimate_time_impact drain_percent current_state =
     (let current_percent = percent current_state
      in case time_left current_state of
           Some t \<Rightarrow>
             (if t \<noteq> 0 \<and> current_percent > 0
              then drain_percent * (t / current_percent) / 60
              else drain_percent * 5)
         | None \<Rightarrow> drain_percent * 5)"

definition is_safe_to_execute :: "config \<Rightarrow> real \<Rightarrow> battery_state \<Rightarrow> bool" where
  "is_safe_to_execute cfg estimated_drain current_state =
     (let current_percent = percent current_state;
          threshold = (case battery_threshold_percent cfg of Some t \<Rightarrow> t | None \<Rightarrow> 20)
      in if plugged_in current_state then True
         else if current_percent - estimated_drain < threshold then False
         else True)"

definition predict_drain ::
  "config \<Rightarrow> nat \<Rightarrow> sensors_battery option \<Rightarrow> task_description \<Rightarrow> prediction" where
  "predict_drain cfg tm_hour battery td =
     (let features = extract_features tm_hour td;
          current_state = get_current_battery_state battery;
          drain = run_prediction features current_state
      in \<lparr>estimated_drain_percent = drain,
          estimated_time_minutes = estimate_time_impact drain current_state,
          current_battery_percent = percent current_state,
          safe_to_execute = is_safe_to_execute cfg drain current_state\<rparr>)"

section \<open>Thermal status (src/battery\_scheduler/power\_monitor.py)\<close>

record thermal_status =
  status :: string
  temperature :: "real option"
  threshold :: "real option"

text \<open>The argument \<open>temp\<close> is what \<open>DeviceManager.get_current_temperature\<close> returns.\<close>

definition get_thermal_status :: "config \<Rightarrow> real option \<Rightarrow> thermal_status" where
  "get_thermal_status cfg temp =
     (let threshold = (case thermal_threshold_celsius cfg of Some t \<Rightarrow> t | None \<Rightarrow> 45)
      in case temp of
           None \<Rightarrow> \<lparr>status = ''unknown'', temperature = None, threshold = None\<rparr>
         | Some t \<Rightarrow>
             \<lparr>status = (if t > threshold then ''throttling''
                        else if t > threshold - 5 then ''warning'' else ''normal''),
              temperature = Some t, threshold = Some threshold\<rparr>)"

definition is_thermal_throttling :: "thermal_status \<Rightarrow> bool" where
  "is_thermal_throttling st = (status st = ''throttling'')"

section \<open>Admission rules and numeric priority (src/battery\_scheduler/scheduler.py)\<close>

text \<open>
  The first argument is the thermal status the power monitor reports when the rules
  run. The prediction always carries the keys \<open>current_battery_percent\<close> and
  \<open>safe_to_execute\<close> (\<open>predict_drain\<close> builds it with a literal), so the defaults of
  \<open>.get\<close> are never taken.
\<close>

definition apply_scheduling_rules :: "thermal_status \<Rightarrow> prediction \<Rightarrow> string \<Rightarrow> bool \<times> string" where
  "apply_scheduling_rules thermal pred priority_str =
     (if current_battery_percent pred < 20 \<and> priority_str \<noteq> ''critical''
        then (False, ''Battery below threshold'')
      else if \<not> safe_to_execute pred \<and> priority_str \<noteq> ''critical''
        then (False, ''Predicted drain too high'')
      else let thermal_safe = \<not> is_thermal_throttling thermal
        in if \<not> thermal_safe \<and> priority_str \<noteq> ''critical''
             then (False, ''Thermal throttling detected'')
           else if priority_str = ''critical''
             then (True, ''Critical priority overrides constraints'')
           else (True, ''All checks passed''))"

definition priority_map :: "string \<rightharpoonup> int" where
  "priority_map =
     [''critical'' \<mapsto> 0, ''high'' \<mapsto> 10, ''normal'' \<mapsto> 50, ''low'' \<mapsto> 100]"

definition calculate_priority :: "string \<Rightarrow> prediction \<Rightarrow> int" where
  "calculate_priority priority_str pred =
     (let base_priority = (case priority_map priority_str of Some v \<Rightarrow> v | None \<Rightarrow> 50)
      in if safe_to_execute pred then base_priority - 5 else base_priority)"

section \<open>The task queue: \<open>queue.PriorityQueue\<close> over \<open>heapq\<close>\<close>

text \<open>
  A task is the dictionary \<open>schedule\<close> builds. The callable under \<open>'func'\<close> is
  represented by a number that identifies it; what a call of it does is an input of the
  loop iteration that makes the call.
\<close>

record task =
  task_id :: string
  func :: nat
  description :: task_description
  prediction :: prediction
  priority :: int
  should_execute :: bool
  reason :: string
  scheduled_time :: real

type_synonym entry = "int \<times> task"

datatype py_error = TypeError | IndexError | BaseException string

text \<open>
  The queue stores the tuples \<open>(priority_value, task)\<close>. Python orders tuples by their
  first differing items: the priorities decide when they differ; when they tie the two
  task dictionaries are compared, equal dictionaries make the tuples equal (so \<open><\<close> is
  false), and different dictionaries have no order, which raises \<open>TypeError\<close>.
\<close>

definition entry_lt :: "entry \<Rightarrow> entry \<Rightarrow> py_error + bool" where
  "entry_lt a b =
     (if fst a \<noteq> fst b then Inr (fst a < fst b)
      else if snd a = snd b then Inr False
      else Inl TypeError)"

text \<open>
  \<open>PriorityQueue.put\<close> is \<open>heappush\<close> and \<open>PriorityQueue.get\<close> is \<open>heappop\<close> on a
  list, as CPython's \<open>heapq\<close> performs them: items are exchanged in place, so a
  comparison that raises leaves the list a rearrangement of what it held. Each operation
  returns the list together with the error raised, if any.
\<close>

function siftdown :: "entry list \<Rightarrow> nat \<Rightarrow> nat \<Rightarrow> entry list \<times> py_error option" where
  "siftdown heap startpos pos =
     (if pos \<ge> length heap then (heap, Some IndexError)
      else if pos > startpos then
        (let parentpos = (pos - 1) div 2
         in case entry_lt (heap ! pos) (heap ! parentpos) of
              Inl e \<Rightarrow> (heap, Some e)
            | Inr cmp \<Rightarrow>
                if cmp
                then siftdown (heap[parentpos := heap ! pos, pos := heap ! parentpos])
                       startpos parentpos
                else (heap, None))
      else (heap, None))"
  by pat_completeness auto
termination
  by (relation "measure (\<lambda>(heap, startpos, pos). pos)") auto

text \<open>The index of the smaller child of \<open>pos\<close>: the right one unless the left is smaller.\<close>

definition smaller_child :: "entry list \<Rightarrow> nat \<Rightarrow> nat \<Rightarrow> py_error + nat" where
  "smaller_child heap endpos pos =
     (let childpos = 2 * pos + 1
      in if childpos + 1 < endpos
         then (case entry_lt (heap ! childpos) (heap ! (childpos + 1)) of
                 Inl e \<Rightarrow> Inl e
               | Inr cmp \<Rightarrow> Inr (if cmp then childpos else childpos + 1))
         else Inr childpos)"

function bubble_up :: "entry list \<Rightarrow> nat \<Rightarrow> nat \<Rightarrow> (entry list \<times> nat) \<times> py_error option" where
  "bubble_up heap endpos pos =
     (if pos < endpos div 2
      then (case smaller_child heap endpos pos of
              Inl e \<Rightarrow> ((heap, pos), Some e)
            | Inr childpos \<Rightarrow>
                bubble_up (heap[childpos := heap ! pos, pos := heap ! childpos]) endpos childpos)
      else ((heap, pos), None))"
  by pat_completeness auto
termination
  by (relation "measure (\<lambda>(heap, endpos, pos). endpos - pos)")
    (auto simp: smaller_child_def Let_def split: if_splits sum.splits)

declare siftdown.simps [simp del] bubble_up.simps [simp del]

definition siftup :: "entry list \<Rightarrow> nat \<Rightarrow> entry list \<times> py_error option" where
  "siftup heap pos =
     (case bubble_up heap (length heap) pos of
        ((heap', pos'), Some e) \<Rightarrow> (heap', Some e)
      | ((heap', pos'), None) \<Rightarrow> siftdown heap' pos pos')"

definition heappush :: "entry list \<Rightarrow> entry \<Rightarrow> entry list \<times> py_error option" where
  "heappush heap item = siftdown (heap @ [item]) 0 (length heap)"

definition heappop :: "entry list \<Rightarrow> entry list \<times> (py_error + entry)" where
  "heappop heap =
     (if heap = [] then (heap, Inl IndexError)
      else let lastelt = last heap; heap = butlast heap
        in if heap = [] then (heap, Inr lastelt)
           else let returnitem = heap ! 0; heap = heap[0 := lastelt]
             in case siftup heap 0 of
                  (heap', Some e) \<Rightarrow> (heap', Inl e)
                | (heap', None) \<Rightarrow> (heap', Inr returnitem))"

section \<open>The scheduler (src/battery\_scheduler/scheduler.py)\<close>

text \<open>
  The state of an \<open>AIScheduler\<close> with its predictor: the queue's list, the predictor's
  history, and what the scheduler has done to the outside, recorded as it happens: the
  log lines, the tasks whose callable has been called (\<open>calls\<close>), the task dictionaries
  built by \<open>schedule\<close> (\<open>submitted\<close>) and the seconds the loop has spent in
  \<open>time.sleep\<close> (\<open>slept\<close>).
\<close>

record drain_record =
  record_task_id :: string
  actual_drain :: real
  timestamp :: real

datatype log_line =
    TaskScheduled string int bool
  | TaskDeferred string string
  | ExecutingTask string
  | TaskExecutionFailed string string
  | TaskCompleted string real real

record scheduler =
  task_queue :: "entry list"
  history :: "drain_record list"
  logged :: "log_line list"
  calls :: "task list"
  submitted :: "task list"
  slept :: nat

definition initial_scheduler :: scheduler where
  "initial_scheduler =
     \<lparr>task_queue = [], history = [], logged = [], calls = [], submitted = [], slept = 0\<rparr>"

subsection \<open>Task ids\<close>

text \<open>\<open>int(x)\<close> truncates towards zero; \<open>str\<close> of an integer is its decimal numeral.\<close>

definition py_int :: "real \<Rightarrow> int" where
  "py_int x = (if 0 \<le> x then \<lfloor>x\<rfloor> else \<lceil>x\<rceil>)"

definition digit_char :: "nat \<Rightarrow> char" where
  "digit_char d = ''0123456789'' ! d"

fun str_nat :: "nat \<Rightarrow> string" where
  "str_nat n = (if n < 10 then [digit_char n] else str_nat (n div 10) @ [digit_char (n mod 10)])"

declare str_nat.simps [simp del]

definition str_int :: "int \<Rightarrow> string" where
  "str_int i = (if i < 0 then CHR ''-'' # str_nat (nat (- i)) else str_nat (nat i))"

subsection \<open>\<open>schedule\<close>\<close>

text \<open>
  What one call of \<open>schedule\<close> reads from the outside, in the order it reads it. The
  first field is the float that \<open>time.time() * 1000\<close> evaluates to: the product is
  computed in float arithmetic, so the model takes its value as read and does not
  recompute it from the clock reading. \<open>int\<close> of a float and \<open>str\<close> of an integer are
  exact.
\<close>

record submit_env =
  time_ms_at_id :: real
  tm_hour :: nat
  battery :: "sensors_battery option"
  device_temperature :: "real option"
  time_at_scheduled :: real

definition default_task_description :: task_description where
  "default_task_description =
     \<lparr>compute_ops = Some 1000000000, memory_mb = Some 100, duration_seconds = Some 1\<rparr>"

text \<open>
  The task dictionary \<open>schedule\<close> builds before it puts it on the queue: the id from the
  clock in milliseconds, the prediction, the admission decision and its reason, and the
  numeric priority.
\<close>

definition new_task ::
  "config \<Rightarrow> submit_env \<Rightarrow> nat \<Rightarrow> string \<Rightarrow> task_description option \<Rightarrow> task" where
  "new_task cfg env task_func priority_str task_description =
     (let tid = ''task_'' @ str_int (py_int (time_ms_at_id env));
          td = (case task_description of None \<Rightarrow> default_task_description | Some d \<Rightarrow> d);
          pred = predict_drain cfg (tm_hour env) (battery env) td;
          (should, why) =
            apply_scheduling_rules (get_thermal_status cfg (device_temperature env)) pred priority_str;
          priority_value = calculate_priority priority_str pred
      in \<lparr>task_id = tid, func = task_func, description = td, prediction = pred,
          priority = priority_value, should_execute = should, reason = why,
          scheduled_time = time_at_scheduled env\<rparr>)"

definition schedule ::
  "config \<Rightarrow> submit_env \<Rightarrow> nat \<Rightarrow> string \<Rightarrow> task_description option \<Rightarrow> scheduler
     \<Rightarrow> scheduler \<times> (py_error + string)" where
  "schedule cfg env task_func priority_str task_description s =
     (let task = new_task cfg env task_func priority_str task_description;
          s = s\<lparr>submitted := submitted s @ [task]\<rparr>
      in case heappush (task_queue s) (priority task, task) of
           (q, Some e) \<Rightarrow> (s\<lparr>task_queue := q\<rparr>, Inl e)
         | (q, None) \<Rightarrow>
             (s\<lparr>task_queue := q,
                logged := logged s @
                  [TaskScheduled (task_id task) (priority task) (should_execute task)]\<rparr>,
              Inr (task_id task)))"

subsection \<open>\<open>_execute_task\<close>\<close>

text \<open>
  What a call of the task's callable does: it returns, it raises an exception that
  \<open>except Exception\<close> catches, or it raises one that is no \<open>Exception\<close>
  (\<open>KeyboardInterrupt\<close>, \<open>SystemExit\<close>), which the handler lets through.
\<close>

datatype call_outcome = Returns | Raises string | RaisesBase string

record exec_env =
  start_time :: real
  battery_before :: "real option"
  outcome :: call_outcome
  end_time :: real
  battery_after :: "real option"
  record_time :: real

text \<open>A reading is true in a condition when it is neither \<open>None\<close> nor zero.\<close>

definition truthy :: "real option \<Rightarrow> bool" where
  "truthy r = (case r of None \<Rightarrow> False | Some x \<Rightarrow> x \<noteq> 0)"

definition record_actual_drain :: "real \<Rightarrow> string \<Rightarrow> real \<Rightarrow> scheduler \<Rightarrow> scheduler" where
  "record_actual_drain now tid drain s =
     s\<lparr>history := history s @
          [\<lparr>record_task_id = tid, actual_drain = drain, timestamp = now\<rparr>]\<rparr>"

definition execute_task :: "exec_env \<Rightarrow> task \<Rightarrow> scheduler \<Rightarrow> scheduler \<times> py_error option" where
  "execute_task env task s =
     (let tid = task_id task;
          s = s\<lparr>logged := logged s @ [ExecutingTask tid]\<rparr>;
          s = s\<lparr>calls := calls s @ [task]\<rparr>
      in case outcome env of
           RaisesBase e \<Rightarrow> (s, Some (BaseException e))
         | oc \<Rightarrow>
             (let s = (case oc of
                         Raises e \<Rightarrow> s\<lparr>logged := logged s @ [TaskExecutionFailed tid e]\<rparr>
                       | _ \<Rightarrow> s);
                  drain = (if truthy (battery_before env) \<and> truthy (battery_after env)
                           then the (battery_before env) - the (battery_after env) else 0);
                  execution_time = end_time env - start_time env;
                  s = record_actual_drain (record_time env) tid drain s
              in (s\<lparr>logged := logged s @ [TaskCompleted tid execution_time drain]\<rparr>, None)))"

subsection \<open>\<open>_should_retry\<close> and one pass of \<open>_scheduler_loop\<close>\<close>

text \<open>Every task built by \<open>schedule\<close> has the key \<open>'priority'\<close>.\<close>

definition should_retry :: "task \<Rightarrow> bool" where
  "should_retry task = (priority task < 50)"

definition sleep :: "nat \<Rightarrow> scheduler \<Rightarrow> scheduler" where
  "sleep n s = s\<lparr>slept := slept s + n\<rparr>"

text \<open>
  One pass of the body of \<open>while self.is_running\<close>. An error is an exception that leaves
  the loop, and with it the thread.
\<close>

definition scheduler_iteration :: "exec_env \<Rightarrow> scheduler \<Rightarrow> scheduler \<times> py_error option" where
  "scheduler_iteration env s =
     (if task_queue s \<noteq> [] then
        (case heappop (task_queue s) of
           (q, Inl e) \<Rightarrow> (s\<lparr>task_queue := q\<rparr>, Some e)
         | (q, Inr (prio, task)) \<Rightarrow>
             (let s = s\<lparr>task_queue := q\<rparr>
              in if should_execute task then
                   (case execute_task env task s of
                      (s, Some e) \<Rightarrow> (s, Some e)
                    | (s, None) \<Rightarrow> (sleep 1 s, None))
                 else
                   (let s = s\<lparr>logged := logged s @ [TaskDeferred (task_id task) (reason task)]\<rparr>
                    in if should_retry task then
                         (let s = sleep 60 s
                          in case heappush (task_queue s) (prio + 1, task) of
                               (q, Some e) \<Rightarrow> (s\<lparr>task_queue := q\<rparr>, Some e)
                             | (q, None) \<Rightarrow> (sleep 1 (s\<lparr>task_queue := q\<rparr>), None))
                       else (sleep 1 s, None))))
      else (sleep 1 s, None))"

subsection \<open>Runs\<close>

text \<open>
  A run is any sequence of calls of \<open>schedule\<close> and passes of the loop. The queue's lock
  makes \<open>put\<close> and \<open>get\<close> atomic; a run takes a whole pass of the loop as one step. A
  step that raises leaves the state it reached, and the run goes on from it.
\<close>

datatype event =
    Submit submit_env nat string "task_description option"
  | Iterate exec_env

fun step :: "config \<Rightarrow> scheduler \<Rightarrow> event \<Rightarrow> scheduler" where
  "step cfg s (Submit env task_func priority_str td) =
     fst (schedule cfg env task_func priority_str td s)"
| "step cfg s (Iterate env) = fst (scheduler_iteration env s)"

definition run :: "config \<Rightarrow> event list \<Rightarrow> scheduler \<Rightarrow> scheduler" where
  "run cfg evs s = foldl (step cfg) s evs"

subsection \<open>Concrete inputs\<close>

text \<open>
  Inputs for the examples below: the default configuration, a device at 30 degrees, an
  unplugged battery at a given percent, a submission at a clock reading of a whole number
  \<open>t\<close> of seconds (for which \<open>time.time() * 1000\<close> is the whole number \<open>1000 t\<close>), and
  a pass of the loop in which the task's callable behaves as given and the battery reads
  as given before and after.
\<close>

definition default_config :: config where
  "default_config = \<lparr>battery_threshold_percent = None, thermal_threshold_celsius = None\<rparr>"

definition submit_at :: "nat \<Rightarrow> real \<Rightarrow> submit_env" where
  "submit_at t pct =
     \<lparr>time_ms_at_id = real (1000 * t), tm_hour = 12,
      battery = Some \<lparr>sb_percent = pct, sb_power_plugged = False, sb_secsleft = 7200\<rparr>,
      device_temperature = Some 30, time_at_scheduled = real t\<rparr>"

definition pass_with :: "call_outcome \<Rightarrow> real option \<Rightarrow> real option \<Rightarrow> exec_env" where
  "pass_with oc before after =
     \<lparr>start_time = 10, battery_before = before, outcome = oc, end_time = 11,
      battery_after = after, record_time = 11\<rparr>"

section \<open>Properties of the predictor and of the admission rules\<close>

lemma priority_map_cases:
  "priority_map c =
     (if c = ''low'' then Some 100 else if c = ''normal'' then Some 50
      else if c = ''high'' then Some 10 else if c = ''critical'' then Some 0 else None)"
  by (simp add: priority_map_def)



lemma run_prediction_le: "run_prediction fs st \<le> 10"
  by (simp add: run_prediction_def Let_def)

lemma run_prediction_nonneg_iff:
  "(0 \<le> run_prediction fs st) = (0 \<le> sum_list (take 3 fs))"
  by (simp add: run_prediction_def Let_def min_def zero_le_mult_iff)

lemma nonneg_workload_sum:
  assumes "case compute_ops td of Some c \<Rightarrow> 0 \<le> c | None \<Rightarrow> True"
    and "case memory_mb td of Some m \<Rightarrow> 0 \<le> m | None \<Rightarrow> True"
    and "case duration_seconds td of Some d \<Rightarrow> 0 \<le> d | None \<Rightarrow> True"
  shows "0 \<le> sum_list (take 3 (extract_features h td))"
  using assms by (simp add: extract_features_def Let_def split: option.splits)

text \<open>
  Claim C4, as the code has it: for every task description with finite figures and every
  battery reading the estimated drain is at most 10, and it is non-negative when
  \<open>compute_ops\<close>, \<open>memory_mb\<close> and \<open>duration_seconds\<close> are all non-negative (a missing
  figure takes its positive default). The code takes \<open>min\<close> with 10 and has no lower
  clamp, so nothing bounds the drain from below when a figure is negative. Both parts are
  kept by the float computation: a quotient, sum or product of non-negative floats is
  non-negative, and \<open>min\<close> with 10 is exact.
\<close>

theorem predict_drain_range:
  "estimated_drain_percent (predict_drain cfg h b td) \<le> 10 \<and>
   ((case compute_ops td of Some c \<Rightarrow> 0 \<le> c | None \<Rightarrow> True) \<and>
    (case memory_mb td of Some m \<Rightarrow> 0 \<le> m | None \<Rightarrow> True) \<and>
    (case duration_seconds td of Some d \<Rightarrow> 0 \<le> d | None \<Rightarrow> True)
    \<longrightarrow> 0 \<le> estimated_drain_percent (predict_drain cfg h b td))"
proof -
  have "(case compute_ops td of Some c \<Rightarrow> 0 \<le> c | None \<Rightarrow> True) \<and> (case memory_mb td of Some m \<Rightarrow> 0 \<le> m | None \<Rightarrow> True) \<and> (case duration_seconds td of Some d \<Rightarrow> 0 \<le> d | None \<Rightarrow> True) \<Longrightarrow> 0 \<le> sum_list (take 3 (extract_features h td))"
    by (elim conjE) (rule nonneg_workload_sum)
  then show ?thesis
    by (auto simp: predict_drain_def Let_def run_prediction_le run_prediction_nonneg_iff)
qed

theorem predict_drain_range_witness:
  "(case compute_ops default_task_description of Some c \<Rightarrow> 0 \<le> c | None \<Rightarrow> True) \<and>
   (case memory_mb default_task_description of Some m \<Rightarrow> 0 \<le> m | None \<Rightarrow> True) \<and>
   (case duration_seconds default_task_description of Some d \<Rightarrow> 0 \<le> d | None \<Rightarrow> True) \<and>
   0 \<le> estimated_drain_percent
          (predict_drain \<lparr>battery_threshold_percent = None, thermal_threshold_celsius = None\<rparr> 12 None
             default_task_description) \<and>
   estimated_drain_percent
     (predict_drain \<lparr>battery_threshold_percent = None, thermal_threshold_celsius = None\<rparr> 12 None
        default_task_description) \<le> 10"
  using predict_drain_range
    [of "\<lparr>battery_threshold_percent = None, thermal_threshold_celsius = None\<rparr>" 12 None
        default_task_description]
  by (simp add: default_task_description_def)

text \<open>
  Claim C4 as stated fails: with \<open>compute_ops = -1e9\<close> and nothing else the estimated
  drain is \<open>-0.5\<close>.
\<close>

theorem predict_drain_negative:
  "\<not> 0 \<le> estimated_drain_percent
      (predict_drain \<lparr>battery_threshold_percent = None, thermal_threshold_celsius = None\<rparr> 12 None
         \<lparr>compute_ops = Some (- 1000000000), memory_mb = Some 0, duration_seconds = Some 0\<rparr>)"
  by (simp add: predict_drain_def extract_features_def get_current_battery_state_def
      run_prediction_def Let_def)

text \<open>
  Claim C6, as the code has it: for every prediction and every thermal status a critical
  task is admitted with the reason \<open>Critical priority overrides constraints\<close>; a high
  task under thermal throttling is always denied, and its reason is
  \<open>Thermal throttling detected\<close> when the battery percent is at least 20 and the
  prediction is safe (otherwise an earlier rule gives the reason).
\<close>

theorem critical_admitted_high_throttled:
  "apply_scheduling_rules th pred ''critical'' = (True, ''Critical priority overrides constraints'') \<and>
   (is_thermal_throttling th \<longrightarrow> \<not> fst (apply_scheduling_rules th pred ''high'')) \<and>
   (is_thermal_throttling th \<and> \<not> current_battery_percent pred < 20 \<and> safe_to_execute pred \<longrightarrow>
      apply_scheduling_rules th pred ''high'' = (False, ''Thermal throttling detected''))"
  by (simp add: apply_scheduling_rules_def Let_def)

theorem critical_admitted_high_throttled_witness:
  "is_thermal_throttling
     (get_thermal_status \<lparr>battery_threshold_percent = None, thermal_threshold_celsius = None\<rparr> (Some 50)) \<and>
   \<not> current_battery_percent
       \<lparr>estimated_drain_percent = 1, estimated_time_minutes = 5,
        current_battery_percent = 80, safe_to_execute = True\<rparr> < 20 \<and>
   safe_to_execute
       \<lparr>estimated_drain_percent = 1, estimated_time_minutes = 5,
        current_battery_percent = 80, safe_to_execute = True\<rparr> \<and>
   apply_scheduling_rules
     (get_thermal_status \<lparr>battery_threshold_percent = None, thermal_threshold_celsius = None\<rparr> (Some 50))
     \<lparr>estimated_drain_percent = 1, estimated_time_minutes = 5,
      current_battery_percent = 80, safe_to_execute = True\<rparr> ''high''
     = (False, ''Thermal throttling detected'') \<and>
   apply_scheduling_rules
     (get_thermal_status \<lparr>battery_threshold_percent = None, thermal_threshold_celsius = None\<rparr> (Some 50))
     \<lparr>estimated_drain_percent = 1, estimated_time_minutes = 5,
      current_battery_percent = 80, safe_to_execute = True\<rparr> ''critical''
     = (True, ''Critical priority overrides constraints'')"
  using critical_admitted_high_throttled
    [of "get_thermal_status \<lparr>battery_threshold_percent = None, thermal_threshold_celsius = None\<rparr> (Some 50)"
        "\<lparr>estimated_drain_percent = 1, estimated_time_minutes = 5,
          current_battery_percent = 80, safe_to_execute = True\<rparr>"]
  by (simp add: get_thermal_status_def is_thermal_throttling_def)

text \<open>
  Claim C6 as stated fails: the reason the code returns for a critical task is not the
  string the claim gives (it begins with a capital letter), and a high task under
  throttling whose battery is at 15 percent is denied with the reason
  \<open>Battery below threshold\<close>, not with the throttling reason.
\<close>

theorem critical_reason_differs:
  "apply_scheduling_rules \<lparr>status = ''throttling'', temperature = Some 50, threshold = Some 45\<rparr>
     \<lparr>estimated_drain_percent = 1, estimated_time_minutes = 5,
      current_battery_percent = 80, safe_to_execute = True\<rparr> ''critical''
     \<noteq> (True, ''critical priority overrides constraints'') \<and>
   apply_scheduling_rules \<lparr>status = ''throttling'', temperature = Some 50, threshold = Some 45\<rparr>
     \<lparr>estimated_drain_percent = 1, estimated_time_minutes = 5,
      current_battery_percent = 15, safe_to_execute = True\<rparr> ''high''
     = (False, ''Battery below threshold'')"
  by (simp add: apply_scheduling_rules_def Let_def is_thermal_throttling_def)

lemma safe_mono_aux:
  fixes s :: real
  assumes "p \<le> p'" and "T \<le> 20 \<or> 0 \<le> s"
    and "\<not> p - min (if p < 20 then s * (12 / 10) else s) 10 < T"
  shows "\<not> p' - min (if p' < 20 then s * (12 / 10) else s) 10 < T"
  using assms by (auto simp: min_def split: if_splits)

text \<open>
  Claim C7, as the code has it: with the task description, the plugged-in flag, the
  seconds remaining and the hour fixed, raising the battery percent never turns a safe
  prediction unsafe, provided the figures are finite and the configured threshold is at
  most 20 (its default) or \<open>compute_ops\<close>, \<open>memory_mb\<close> and \<open>duration_seconds\<close> are all
  non-negative (a missing figure takes its positive default). This covers the step across
  20 percent, where the factor 1.2 is dropped. The float computation keeps the property:
  with non-negative figures the base drain is a non-negative float, times 1.2 it is no
  smaller, and the rounded difference of percent and drain grows with the percent and
  shrinks with the drain; with a negative base drain and a threshold of at most 20, a
  battery at 20 percent or more is safe outright.
\<close>

theorem safe_to_execute_monotone:
  assumes "p \<le> p'"
    and "(case battery_threshold_percent cfg of Some t \<Rightarrow> t | None \<Rightarrow> 20) \<le> 20
         \<or> (case compute_ops td of Some c \<Rightarrow> 0 \<le> c | None \<Rightarrow> True) \<and>
           (case memory_mb td of Some m \<Rightarrow> 0 \<le> m | None \<Rightarrow> True) \<and>
           (case duration_seconds td of Some d \<Rightarrow> 0 \<le> d | None \<Rightarrow> True)"
    and "safe_to_execute (predict_drain cfg h (Some (b\<lparr>sb_percent := p\<rparr>)) td)"
  shows "safe_to_execute (predict_drain cfg h (Some (b\<lparr>sb_percent := p'\<rparr>)) td)"
proof (cases "sb_power_plugged b")
  case True
  then show ?thesis
    by (simp add: predict_drain_def is_safe_to_execute_def get_current_battery_state_def Let_def)
next
  case False
  define s where "s = sum_list (take 3 (extract_features h td)) * (5 / 10)"
  define T where "T = (case battery_threshold_percent cfg of Some t \<Rightarrow> t | None \<Rightarrow> 20)"
  have hyp: "T \<le> 20 \<or> 0 \<le> s"
    using assms(2) nonneg_workload_sum [of td h] by (auto simp: s_def T_def)
  have safe_p: "\<not> p - min (if p < 20 then s * (12 / 10) else s) 10 < T"
    using assms(3) False
    by (simp add: predict_drain_def is_safe_to_execute_def get_current_battery_state_def
        run_prediction_def Let_def s_def T_def split: if_splits)
  have "\<not> p' - min (if p' < 20 then s * (12 / 10) else s) 10 < T"
    by (rule safe_mono_aux [OF assms(1) hyp safe_p])
  then show ?thesis
    using False
    by (simp add: predict_drain_def is_safe_to_execute_def get_current_battery_state_def
        run_prediction_def Let_def s_def T_def split: if_splits)
qed

theorem safe_to_execute_monotone_witness:
  "(15::real) \<le> 25 \<and>
   safe_to_execute
     (predict_drain \<lparr>battery_threshold_percent = Some 10, thermal_threshold_celsius = None\<rparr> 12
        (Some \<lparr>sb_percent = 15, sb_power_plugged = False, sb_secsleft = 7200\<rparr>)
        \<lparr>compute_ops = None, memory_mb = None, duration_seconds = None\<rparr>) \<and>
   safe_to_execute
     (predict_drain \<lparr>battery_threshold_percent = Some 10, thermal_threshold_celsius = None\<rparr> 12
        (Some \<lparr>sb_percent = 25, sb_power_plugged = False, sb_secsleft = 7200\<rparr>)
        \<lparr>compute_ops = None, memory_mb = None, duration_seconds = None\<rparr>)"
proof -
  let ?cfg = "\<lparr>battery_threshold_percent = Some 10, thermal_threshold_celsius = None\<rparr>"
  let ?td = "\<lparr>compute_ops = None, memory_mb = None, duration_seconds = None\<rparr>"
  let ?b = "\<lparr>sb_percent = 15, sb_power_plugged = False, sb_secsleft = 7200\<rparr>"
  have le: "(15::real) \<le> 25" by simp
  have h2: "(case battery_threshold_percent ?cfg of Some t \<Rightarrow> t | None \<Rightarrow> 20) \<le> 20
         \<or> (case compute_ops ?td of Some c \<Rightarrow> 0 \<le> c | None \<Rightarrow> True) \<and>
           (case memory_mb ?td of Some m \<Rightarrow> 0 \<le> m | None \<Rightarrow> True) \<and>
           (case duration_seconds ?td of Some d \<Rightarrow> 0 \<le> d | None \<Rightarrow> True)" by simp
  have h3: "safe_to_execute (predict_drain ?cfg 12 (Some (?b\<lparr>sb_percent := 15\<rparr>)) ?td)"
    by (simp add: predict_drain_def is_safe_to_execute_def get_current_battery_state_def
        run_prediction_def extract_features_def Let_def)
  from safe_to_execute_monotone [OF le h2 h3] h3 le show ?thesis by simp
qed

text \<open>
  Claim C7 as stated fails: with the threshold configured to 30 and a task description
  whose \<open>compute_ops\<close> is \<open>-19e9\<close>, an unplugged battery at 19 percent gives a safe
  prediction (\<open>19 + 11.4 \<ge> 30\<close>) and at 20 percent an unsafe one (\<open>20 + 9.5 < 30\<close>).
\<close>

theorem safe_to_execute_not_monotone:
  "safe_to_execute
     (predict_drain \<lparr>battery_threshold_percent = Some 30, thermal_threshold_celsius = None\<rparr> 12
        (Some \<lparr>sb_percent = 19, sb_power_plugged = False, sb_secsleft = 7200\<rparr>)
        \<lparr>compute_ops = Some (- 19000000000), memory_mb = Some 0, duration_seconds = Some 0\<rparr>) \<and>
   \<not> safe_to_execute
     (predict_drain \<lparr>battery_threshold_percent = Some 30, thermal_threshold_celsius = None\<rparr> 12
        (Some \<lparr>sb_percent = 20, sb_power_plugged = False, sb_secsleft = 7200\<rparr>)
        \<lparr>compute_ops = Some (- 19000000000), memory_mb = Some 0, duration_seconds = Some 0\<rparr>)"
  by (simp add: predict_drain_def is_safe_to_execute_def get_current_battery_state_def
        run_prediction_def extract_features_def Let_def)

section \<open>The queue keeps its items\<close>

text \<open>
  Sifting only exchanges items, so \<open>heappush\<close> adds exactly the new item, also when a
  comparison raises, and \<open>heappop\<close> removes exactly the item it returns; when
  \<open>heappop\<close> raises, nothing is added to the list.
\<close>

lemma siftdown_mset: "mset (fst (siftdown heap startpos pos)) = mset heap"
proof (induction heap startpos pos rule: siftdown.induct)
  case (1 heap startpos pos)
  show ?case
  proof (cases "pos < length heap \<and> startpos < pos")
    case False
    then show ?thesis by (subst siftdown.simps) auto
  next
    case True
    let ?pp = "(pos - 1) div 2"
    have pp: "?pp < length heap" using True by auto
    have sw: "mset (heap[?pp := heap ! pos, pos := heap ! ?pp]) = mset heap"
      using True pp by (simp add: mset_swap)
    show ?thesis
    proof (cases "entry_lt (heap ! pos) (heap ! ?pp)")
      case (Inl e)
      then show ?thesis using True by (subst siftdown.simps) (simp add: Let_def)
    next
      case (Inr cmp)
      show ?thesis
      proof (cases cmp)
        case False
        then show ?thesis using True Inr by (subst siftdown.simps) (simp add: Let_def)
      next
        case c: True
        have "mset (fst (siftdown (heap[?pp := heap ! pos, pos := heap ! ?pp]) startpos ?pp))
              = mset (heap[?pp := heap ! pos, pos := heap ! ?pp])"
          using "1.IH" [OF _ _ refl Inr] True c by simp
        then show ?thesis
          using True Inr c sw by (subst siftdown.simps) (simp add: Let_def)
      qed
    qed
  qed
qed

lemma smaller_child_bound:
  assumes "pos < endpos div 2" "smaller_child heap endpos pos = Inr c"
  shows "pos < c \<and> c < endpos"
  using assms by (auto simp: smaller_child_def Let_def split: if_splits sum.splits)

lemma bubble_up_mset:
  "endpos = length heap \<Longrightarrow> mset (fst (fst (bubble_up heap endpos pos))) = mset heap"
proof (induction heap endpos pos rule: bubble_up.induct)
  case (1 heap endpos pos)
  show ?case
  proof (cases "pos < endpos div 2")
    case False
    then show ?thesis by (subst bubble_up.simps) simp
  next
    case True
    show ?thesis
    proof (cases "smaller_child heap endpos pos")
      case (Inl e)
      then show ?thesis using True by (subst bubble_up.simps) simp
    next
      case (Inr c)
      from smaller_child_bound [OF True Inr] have b: "pos < c" "c < endpos" by auto
      have sw: "mset (heap[c := heap ! pos, pos := heap ! c]) = mset heap"
        using b "1.prems" by (simp add: mset_swap)
      have "mset (fst (fst (bubble_up (heap[c := heap ! pos, pos := heap ! c]) endpos c)))
            = mset (heap[c := heap ! pos, pos := heap ! c])"
        using "1.IH" [OF True Inr] "1.prems" by simp
      then show ?thesis using True Inr sw by (subst bubble_up.simps) simp
    qed
  qed
qed

lemma siftup_mset: "mset (fst (siftup heap pos)) = mset heap"
proof -
  obtain h p e where b: "bubble_up heap (length heap) pos = ((h, p), e)"
    by (metis surj_pair)
  have "mset h = mset heap" using bubble_up_mset [of "length heap" heap pos] b by simp
  then show ?thesis
    using b by (cases e) (simp_all add: siftup_def siftdown_mset)
qed

lemma heappush_mset: "mset (fst (heappush heap item)) = add_mset item (mset heap)"
  by (simp add: heappush_def siftdown_mset)

lemma heappop_mset_ok:
  assumes "heappop heap = (q, Inr x)"
  shows "mset heap = add_mset x (mset q)"
proof (cases "heap = []")
  case True
  then show ?thesis using assms by (simp add: heappop_def)
next
  case ne: False
  then have split: "heap = butlast heap @ [last heap]" by simp
  show ?thesis
  proof (cases "butlast heap = []")
    case True
    then have "heap = [last heap]" using split by simp
    then have "mset heap = {#last heap#}" by (metis mset.simps(1) mset.simps(2))
    then show ?thesis using assms ne True by (simp add: heappop_def Let_def)
  next
    case False
    let ?h = "(butlast heap)[0 := last heap]"
    obtain h' e where su: "siftup ?h 0 = (h', e)" by (metis surj_pair)
    have m: "mset h' = mset ?h" using siftup_mset [of ?h 0] su by simp
    have e: "e = None" and q: "q = h'" and x: "x = butlast heap ! 0"
      using assms ne False su by (cases e; simp add: heappop_def Let_def)+
    have "mset ?h = add_mset (last heap) (mset (butlast heap) - {#butlast heap ! 0#})"
      using False by (intro mset_update) (simp only: length_greater_0_conv not_False_eq_True)
    moreover have "butlast heap ! 0 \<in># mset (butlast heap)"
      using False by (metis length_greater_0_conv nth_mem_mset)
    moreover have "mset heap = add_mset (last heap) (mset (butlast heap))"
      using split by (metis mset.simps(1) mset.simps(2) mset_append union_mset_add_mset_right add.right_neutral)
    ultimately show ?thesis using m q x by simp
  qed
qed

lemma heappop_mset_err:
  assumes "heappop heap = (q, Inl e)"
  shows "mset q \<subseteq># mset heap"
proof (cases "heap = []")
  case True
  then show ?thesis using assms by (simp add: heappop_def)
next
  case ne: False
  then have split: "heap = butlast heap @ [last heap]" by simp
  show ?thesis
  proof (cases "butlast heap = []")
    case True
    then show ?thesis using assms ne by (simp add: heappop_def Let_def)
  next
    case False
    let ?h = "(butlast heap)[0 := last heap]"
    obtain h' e' where su: "siftup ?h 0 = (h', e')" by (metis surj_pair)
    have m: "mset h' = mset ?h" using siftup_mset [of ?h 0] su by simp
    have q: "q = h'"
      using assms ne False su by (cases e'; simp add: heappop_def Let_def)
    have "mset ?h = add_mset (last heap) (mset (butlast heap) - {#butlast heap ! 0#})"
      using False by (intro mset_update) (simp only: length_greater_0_conv not_False_eq_True)
    moreover have "mset heap = add_mset (last heap) (mset (butlast heap))"
      using split by (metis mset.simps(1) mset.simps(2) mset_append union_mset_add_mset_right add.right_neutral)
    ultimately show ?thesis using m q by (simp add: diff_subset_eq_self)
  qed
qed

section \<open>Runs of the scheduler\<close>

text \<open>
  What a submission and a pass of the loop do to the queue, to the calls and to the
  submitted tasks, and the invariant of every run that follows: the tasks called so far
  together with the tasks still queued are among the submitted ones, and every task
  called had its stored admission flag set.
\<close>

lemma schedule_effect:
  "calls (fst (schedule cfg env f p td s)) = calls s \<and>
   submitted (fst (schedule cfg env f p td s)) = submitted s @ [new_task cfg env f p td] \<and>
   mset (task_queue (fst (schedule cfg env f p td s))) =
     add_mset (priority (new_task cfg env f p td), new_task cfg env f p td) (mset (task_queue s))"
proof -
  let ?t = "new_task cfg env f p td"
  obtain q e where hp: "heappush (task_queue s) (priority ?t, ?t) = (q, e)"
    by (metis surj_pair)
  have "mset q = add_mset (priority ?t, ?t) (mset (task_queue s))"
    using heappush_mset [of "task_queue s" "(priority ?t, ?t)"] hp by simp
  then show ?thesis
    using hp by (cases e) (simp_all add: schedule_def Let_def)
qed

lemma execute_task_effect:
  "calls (fst (execute_task env t s)) = calls s @ [t] \<and>
   task_queue (fst (execute_task env t s)) = task_queue s \<and>
   submitted (fst (execute_task env t s)) = submitted s"
  by (cases "outcome env") (simp_all add: execute_task_def Let_def record_actual_drain_def)

lemma iteration_effect:
  "submitted (fst (scheduler_iteration env s)) = submitted s \<and>
   (\<exists>ts. calls (fst (scheduler_iteration env s)) = calls s @ ts \<and>
      list_all should_execute ts \<and>
      mset ts + image_mset snd (mset (task_queue (fst (scheduler_iteration env s))))
        \<subseteq># image_mset snd (mset (task_queue s)))"
proof (cases "task_queue s = []")
  case True
  then show ?thesis by (simp add: scheduler_iteration_def sleep_def)
next
  case ne: False
  obtain q r where hp: "heappop (task_queue s) = (q, r)" by (metis surj_pair)
  show ?thesis
  proof (cases r)
    case (Inl e)
    have "mset q \<subseteq># mset (task_queue s)" using heappop_mset_err hp Inl by simp
    then have "image_mset snd (mset q) \<subseteq># image_mset snd (mset (task_queue s))"
      by (rule image_mset_subseteq_mono)
    then show ?thesis using ne hp Inl by (simp add: scheduler_iteration_def)
  next
    case (Inr x)
    obtain prio t where x: "x = (prio, t)" by (metis surj_pair)
    have m: "mset (task_queue s) = add_mset (prio, t) (mset q)"
      using heappop_mset_ok hp Inr x by simp
    show ?thesis
    proof (cases "should_execute t")
      case True
      let ?s1 = "s\<lparr>task_queue := q\<rparr>"
      obtain s2 e where ex: "execute_task env t ?s1 = (s2, e)" by (metis surj_pair)
      have eff: "calls s2 = calls s @ [t]" "task_queue s2 = q" "submitted s2 = submitted s"
        using execute_task_effect [of env t ?s1] ex by simp_all
      have "calls (fst (scheduler_iteration env s)) = calls s @ [t] \<and>
            task_queue (fst (scheduler_iteration env s)) = q \<and>
            submitted (fst (scheduler_iteration env s)) = submitted s"
        using ne hp Inr x True ex eff
        by (cases e) (simp_all add: scheduler_iteration_def Let_def sleep_def)
      then show ?thesis using True m by simp
    next
      case False
      show ?thesis
      proof (cases "should_retry t")
        case nr: False
        then show ?thesis using ne hp Inr x False m
          by (simp add: scheduler_iteration_def Let_def sleep_def)
      next
        case True
        obtain q' e where pu: "heappush q (prio + 1, t) = (q', e)" by (metis surj_pair)
        have "mset q' = add_mset (prio + 1, t) (mset q)"
          using heappush_mset [of q "(prio + 1, t)"] pu by simp
        then show ?thesis using ne hp Inr x False True m pu
          by (cases e) (simp_all add: scheduler_iteration_def Let_def sleep_def)
      qed
    qed
  qed
qed

lemma run_snoc: "run cfg (evs @ [ev]) s = step cfg (run cfg evs s) ev"
  by (simp add: run_def)

lemma run_invariant:
  "mset (calls (run cfg evs initial_scheduler)) +
     image_mset snd (mset (task_queue (run cfg evs initial_scheduler)))
     \<subseteq># mset (submitted (run cfg evs initial_scheduler)) \<and>
   list_all should_execute (calls (run cfg evs initial_scheduler))"
proof (induction evs rule: rev_induct)
  case Nil
  then show ?case by (simp add: run_def initial_scheduler_def)
next
  case (snoc ev evs)
  let ?s = "run cfg evs initial_scheduler"
  show ?case
  proof (cases ev)
    case (Submit env f p td)
    then show ?thesis
      using snoc schedule_effect [of cfg env f p td ?s] by (simp add: run_snoc)
  next
    case (Iterate env)
    obtain ts where ts: "calls (fst (scheduler_iteration env ?s)) = calls ?s @ ts"
      "list_all should_execute ts"
      "mset ts + image_mset snd (mset (task_queue (fst (scheduler_iteration env ?s))))
        \<subseteq># image_mset snd (mset (task_queue ?s))"
      and sub: "submitted (fst (scheduler_iteration env ?s)) = submitted ?s"
      using iteration_effect [of env ?s] by blast
    have "mset (calls ?s) + (mset ts + image_mset snd (mset (task_queue (fst (scheduler_iteration env ?s)))))
          \<subseteq># mset (calls ?s) + image_mset snd (mset (task_queue ?s))"
      using ts(3) by (simp only: mset_subset_eq_mono_add_left_cancel)
    also have "\<dots> \<subseteq># mset (submitted ?s)" using snoc by simp
    finally show ?thesis
      using Iterate ts sub snoc by (simp add: run_snoc add.assoc)
  qed
qed

text \<open>
  Claim C8: in every run (any sequence of submissions and passes of the loop, whatever
  the passes read and whether or not a step raises), each task's callable is called at
  most once per submission of that task: a task occurs among the calls at most as often
  as it was submitted. A task is either still queued or has been called, never both,
  and a task that is deferred and put back is the same queue item moved.
\<close>

theorem task_called_at_most_once:
  "count (mset (calls (run cfg evs initial_scheduler))) t
     \<le> count (mset (submitted (run cfg evs initial_scheduler))) t"
proof -
  have "mset (calls (run cfg evs initial_scheduler))
          \<subseteq># mset (submitted (run cfg evs initial_scheduler))"
    using run_invariant [of cfg evs] by (meson mset_subset_eq_add_left subset_mset.order_trans)
  then show ?thesis by (rule mset_subset_eq_count)
qed


text \<open>
  An admitted task is called by the pass of the loop that takes it off the queue, and by
  no later pass.
\<close>

lemma admitted_task_called_once_example:
  "calls (run default_config
      [Submit (submit_at 1 80) 0 ''normal'' None,
       Iterate (pass_with Returns (Some 80) (Some 79)),
       Iterate (pass_with Returns (Some 79) (Some 79))] initial_scheduler)
   = [new_task default_config (submit_at 1 80) 0 ''normal'' None]"
proof -
  let ?t = "new_task default_config (submit_at 1 80) 0 ''normal'' None"
  have t: "should_execute ?t" "priority ?t = 45"
    by (simp_all add: new_task_def submit_at_def default_config_def default_task_description_def
        predict_drain_def extract_features_def get_current_battery_state_def run_prediction_def
        is_safe_to_execute_def get_thermal_status_def is_thermal_throttling_def
        apply_scheduling_rules_def calculate_priority_def priority_map_def Let_def)
  show ?thesis
    using t
    by (simp add: run_def schedule_def initial_scheduler_def heappush_def heappop_def
        siftdown.simps scheduler_iteration_def execute_task_def record_actual_drain_def
        sleep_def pass_with_def truthy_def Let_def)
qed






section \<open>Task ids\<close>

text \<open>The decimal numeral of an integer determines the integer.\<close>

lemma digit_char_inj:
  assumes "a < 10" "b < 10" "digit_char a = digit_char b"
  shows "a = b"
proof -
  have d: "distinct ''0123456789''" by simp
  have "(''0123456789'' ! a = ''0123456789'' ! b) = (a = b)"
    using assms(1,2) by (intro nth_eq_iff_index_eq [OF d]) simp_all
  then show ?thesis using assms(3) by (simp add: digit_char_def)
qed

lemma digit_char_mem: "d < 10 \<Longrightarrow> digit_char d \<in> set ''0123456789''"
  unfolding digit_char_def by (intro nth_mem) simp

lemma str_nat_nonempty: "str_nat n \<noteq> []"
  by (subst str_nat.simps) simp

lemma str_nat_digits: "set (str_nat n) \<subseteq> set ''0123456789''"
proof (induction n rule: str_nat.induct)
  case (1 n)
  show ?case
  proof (cases "n < 10")
    case True
    then show ?thesis using digit_char_mem [of n] by (subst str_nat.simps) simp
  next
    case False
    have "n mod 10 < 10" by simp
    then have "digit_char (n mod 10) \<in> set ''0123456789''" by (rule digit_char_mem)
    then show ?thesis using False "1.IH" by (subst str_nat.simps) simp
  qed
qed

lemma str_nat_inj: "str_nat a = str_nat b \<Longrightarrow> a = b"
proof (induction a arbitrary: b rule: str_nat.induct)
  case (1 a)
  show ?case
  proof (cases "a < 10")
    case a: True
    show ?thesis
    proof (cases "b < 10")
      case True
      then show ?thesis using a "1.prems" digit_char_inj [of a b]
        by (simp add: str_nat.simps [of a] str_nat.simps [of b])
    next
      case False
      then show ?thesis using a "1.prems" str_nat_nonempty [of "b div 10"]
        by (simp add: str_nat.simps [of a] str_nat.simps [of b])
    qed
  next
    case a: False
    show ?thesis
    proof (cases "b < 10")
      case True
      then show ?thesis using a "1.prems" str_nat_nonempty [of "a div 10"]
        by (simp add: str_nat.simps [of a] str_nat.simps [of b])
    next
      case False
      have eq: "str_nat (a div 10) = str_nat (b div 10)"
        and dg: "digit_char (a mod 10) = digit_char (b mod 10)"
        using a False "1.prems" by (simp_all add: str_nat.simps [of a] str_nat.simps [of b])
      have "a div 10 = b div 10" using "1.IH" [OF a eq] .
      moreover have "a mod 10 = b mod 10" using dg by (intro digit_char_inj) simp_all
      ultimately show ?thesis by (metis div_mult_mod_eq)
    qed
  qed
qed

lemma str_nat_no_minus: "hd (str_nat n) \<noteq> CHR ''-''"
proof -
  have "hd (str_nat n) \<in> set (str_nat n)" using str_nat_nonempty by simp
  then have "hd (str_nat n) \<in> set ''0123456789''" using str_nat_digits by blast
  then show ?thesis by auto
qed

lemma str_int_inj: "str_int a = str_int b \<Longrightarrow> a = b"
proof -
  assume eq: "str_int a = str_int b"
  show ?thesis
  proof (cases "a < 0"; cases "b < 0")
    assume "a < 0" "b < 0"
    then have "nat (- a) = nat (- b)" using eq by (simp add: str_int_def str_nat_inj)
    then show ?thesis using \<open>a < 0\<close> \<open>b < 0\<close> by simp
  next
    assume "a < 0" "\<not> b < 0"
    then have "hd (str_nat (nat b)) = CHR ''-''" using eq by (simp add: str_int_def) (metis list.sel(1))
    then show ?thesis using str_nat_no_minus by blast
  next
    assume "\<not> a < 0" "b < 0"
    then have "hd (str_nat (nat a)) = CHR ''-''" using eq by (simp add: str_int_def)
    then show ?thesis using str_nat_no_minus by blast
  next
    assume "\<not> a < 0" "\<not> b < 0"
    then have "nat a = nat b" using eq by (simp add: str_int_def str_nat_inj)
    then show ?thesis using \<open>\<not> a < 0\<close> \<open>\<not> b < 0\<close> by simp
  qed
qed

lemma schedule_returns_id:
  "snd (schedule cfg env f p td s) = Inr i \<Longrightarrow>
   i = ''task_'' @ str_int (py_int (time_ms_at_id env))"
proof -
  assume r: "snd (schedule cfg env f p td s) = Inr i"
  let ?t = "new_task cfg env f p td"
  obtain q e where hp: "heappush (task_queue s @ []) (priority ?t, ?t) = (q, e)"
    by (metis surj_pair)
  have "task_id ?t = ''task_'' @ str_int (py_int (time_ms_at_id env))"
    by (simp add: new_task_def Let_def split: prod.splits)
  then show ?thesis using r hp by (cases e) (simp_all add: schedule_def Let_def)
qed

text \<open>
  Claim C1, as the code has it: the id \<open>schedule\<close> returns is \<open>task_\<close> followed by
  the decimal numeral of \<open>int(time.time() * 1000)\<close>, the float product truncated to an
  integer. Two calls return distinct ids exactly when these truncated products differ,
  and the same id when they coincide, as they do for calls in quick succession.
\<close>

theorem task_ids_equal_iff_same_millisecond:
  assumes "snd (schedule cfg1 env1 f1 p1 td1 s1) = Inr i1"
    and "snd (schedule cfg2 env2 f2 p2 td2 s2) = Inr i2"
  shows "i1 = ''task_'' @ str_int (py_int (time_ms_at_id env1)) \<and>
         (i1 = i2) = (py_int (time_ms_at_id env1) = py_int (time_ms_at_id env2))"
  using schedule_returns_id [OF assms(1)] schedule_returns_id [OF assms(2)] str_int_inj
  by auto

section \<open>The loop, the queue and the ids on concrete inputs\<close>

text \<open>The definitions a concrete call unfolds to.\<close>

lemmas eval_defs =
  schedule_def new_task_def submit_at_def default_config_def default_task_description_def
  predict_drain_def extract_features_def get_current_battery_state_def run_prediction_def
  estimate_time_impact_def is_safe_to_execute_def get_thermal_status_def
  is_thermal_throttling_def apply_scheduling_rules_def calculate_priority_def priority_map_def
  heappush_def heappop_def siftup_def siftdown.simps bubble_up.simps smaller_child_def entry_lt_def
  initial_scheduler_def py_int_def str_int_def str_nat.simps digit_char_def Let_def
  scheduler_iteration_def execute_task_def should_retry_def sleep_def record_actual_drain_def
  truthy_def pass_with_def run_def

text \<open>
  Two submissions at clock readings one second apart get the ids \<open>task_1000\<close> and
  \<open>task_2000\<close>.
\<close>

theorem task_ids_equal_iff_same_millisecond_witness:
  "snd (schedule default_config (submit_at 1 80) 0 ''high'' None initial_scheduler) = Inr ''task_1000'' \<and>
   snd (schedule default_config (submit_at 2 80) 1 ''low'' None
          (fst (schedule default_config (submit_at 1 80) 0 ''high'' None initial_scheduler)))
     = Inr ''task_2000'' \<and>
   ''task_1000'' = ''task_'' @ str_int (py_int (time_ms_at_id (submit_at 1 80))) \<and>
   (''task_1000'' = ''task_2000'') =
     (py_int (time_ms_at_id (submit_at 1 80)) = py_int (time_ms_at_id (submit_at 2 80)))"
proof -
  have a: "snd (schedule default_config (submit_at 1 80) 0 ''high'' None initial_scheduler)
             = Inr ''task_1000''"
    by (simp add: eval_defs)
  have b: "snd (schedule default_config (submit_at 2 80) 1 ''low'' None
             (fst (schedule default_config (submit_at 1 80) 0 ''high'' None initial_scheduler)))
             = Inr ''task_2000''"
    by (simp add: eval_defs)
  from a b task_ids_equal_iff_same_millisecond [OF a b] show ?thesis by blast
qed

text \<open>
  Claim C1 as stated fails: two submissions at the same clock reading (a high and a low
  priority task) both return the id \<open>task_1000\<close>, and the queue then holds two entries
  with that id.
\<close>

theorem same_millisecond_same_id:
  "snd (schedule default_config (submit_at 1 80) 0 ''high'' None initial_scheduler) = Inr ''task_1000'' \<and>
   snd (schedule default_config (submit_at 1 80) 1 ''low'' None
          (fst (schedule default_config (submit_at 1 80) 0 ''high'' None initial_scheduler)))
     = Inr ''task_1000'' \<and>
   map (task_id \<circ> snd)
     (task_queue (fst (schedule default_config (submit_at 1 80) 1 ''low'' None
          (fst (schedule default_config (submit_at 1 80) 0 ''high'' None initial_scheduler)))))
     = [''task_1000'', ''task_1000'']"
  by (simp add: eval_defs)

text \<open>
  Claim C2: the queue entry is the pair of the priority value and the task dictionary,
  with no sequence number. Submitting a second task of equal priority value (two normal
  tasks with the default description, one second apart) makes \<open>put\<close> compare the two
  dictionaries, and \<open>schedule\<close> raises \<open>TypeError\<close> instead of returning an id.
\<close>

theorem equal_priority_put_raises:
  "snd (schedule default_config (submit_at 2 80) 1 ''normal'' None
          (fst (schedule default_config (submit_at 1 80) 0 ''normal'' None initial_scheduler)))
     = Inl TypeError"
  by (simp add: eval_defs)

lemma new_task_priority:
  "priority (new_task cfg senv f p td) = calculate_priority p (prediction (new_task cfg senv f p td))"
  by (simp add: new_task_def Let_def split: prod.splits)

lemma new_task_denied_not_critical:
  "\<not> should_execute (new_task cfg senv f p td) \<Longrightarrow> p \<noteq> ''critical''"
  by (auto simp: new_task_def apply_scheduling_rules_def Let_def split: prod.splits if_splits)

lemma denied_priority_tier:
  assumes "\<not> should_execute (new_task cfg senv f p td)"
  shows "(priority (new_task cfg senv f p td) < 50) =
         (p = ''high'' \<or> (p \<noteq> ''low'' \<and> safe_to_execute (prediction (new_task cfg senv f p td))))"
  using new_task_denied_not_critical [OF assms]
  by (simp add: new_task_priority calculate_priority_def priority_map_cases)

text \<open>
  Claim C5, as the code has it: when the loop takes a task that was not admitted off the
  queue, it does not call it, and it puts it back exactly when the priority value stored
  in the task at submission is below 50. For a denied task built by \<open>schedule\<close> this
  is the case exactly when its class is high, or its class is not low and its prediction
  is safe to execute (a normal task with a safe prediction has 45); a normal task with an
  unsafe prediction has 50 and is dropped, as is every low task. The task is put back
  under the queue key it was taken with plus one, after the loop has slept 60 seconds;
  the priority stored in the task itself is not changed.
\<close>

theorem denied_task_retry:
  assumes "task_queue s \<noteq> []"
    and "heappop (task_queue s) = (q, Inr (prio, t))"
    and "t = new_task cfg senv f p td"
    and "\<not> should_execute t"
  shows "calls (fst (scheduler_iteration env s)) = calls s \<and>
         task_queue (fst (scheduler_iteration env s)) =
           (if priority t < 50 then fst (heappush q (prio + 1, t)) else q) \<and>
         slept (fst (scheduler_iteration env s)) =
           (if priority t < 50
            then (if snd (heappush q (prio + 1, t)) = None then slept s + 60 + 1 else slept s + 60)
            else slept s + 1) \<and>
         (priority t < 50) = (p = ''high'' \<or> (p \<noteq> ''low'' \<and> safe_to_execute (prediction t)))"
proof -
  obtain q' e where pu: "heappush q (prio + 1, t) = (q', e)" by (metis surj_pair)
  have tier: "(priority t < 50) = (p = ''high'' \<or> (p \<noteq> ''low'' \<and> safe_to_execute (prediction t)))"
    using denied_priority_tier assms(3,4) by simp
  have "calls (fst (scheduler_iteration env s)) = calls s \<and>
         task_queue (fst (scheduler_iteration env s)) =
           (if priority t < 50 then fst (heappush q (prio + 1, t)) else q) \<and>
         slept (fst (scheduler_iteration env s)) =
           (if priority t < 50
            then (if snd (heappush q (prio + 1, t)) = None then slept s + 60 + 1 else slept s + 60)
            else slept s + 1)"
    using assms(1,2,4) pu
    by (cases e) (simp_all add: scheduler_iteration_def Let_def sleep_def should_retry_def)
  then show ?thesis using tier by simp
qed

theorem denied_task_retry_witness:
  "task_queue (fst (schedule default_config (submit_at 1 15) 7 ''high'' None initial_scheduler)) \<noteq> [] \<and>
   heappop (task_queue (fst (schedule default_config (submit_at 1 15) 7 ''high'' None initial_scheduler)))
     = ([], Inr (10, new_task default_config (submit_at 1 15) 7 ''high'' None)) \<and>
   \<not> should_execute (new_task default_config (submit_at 1 15) 7 ''high'' None) \<and>
   priority (new_task default_config (submit_at 1 15) 7 ''high'' None) < 50 \<and>
   calls (fst (scheduler_iteration (pass_with Returns (Some 15) (Some 15))
      (fst (schedule default_config (submit_at 1 15) 7 ''high'' None initial_scheduler)))) = [] \<and>
   task_queue (fst (scheduler_iteration (pass_with Returns (Some 15) (Some 15))
      (fst (schedule default_config (submit_at 1 15) 7 ''high'' None initial_scheduler))))
     = [(11, new_task default_config (submit_at 1 15) 7 ''high'' None)] \<and>
   slept (fst (scheduler_iteration (pass_with Returns (Some 15) (Some 15))
      (fst (schedule default_config (submit_at 1 15) 7 ''high'' None initial_scheduler)))) = 61"
proof -
  let ?t = "new_task default_config (submit_at 1 15) 7 ''high'' None"
  let ?s = "fst (schedule default_config (submit_at 1 15) 7 ''high'' None initial_scheduler)"
  let ?env = "pass_with Returns (Some 15) (Some 15)"
  have h1: "task_queue ?s \<noteq> []" by (simp add: eval_defs)
  have h2: "heappop (task_queue ?s) = ([], Inr (10, ?t))" by (simp add: eval_defs)
  have h4: "\<not> should_execute ?t" by (simp add: eval_defs)
  have p: "priority ?t < 50" by (simp add: eval_defs)
  have q1: "fst (heappush [] (10 + 1, ?t)) = [(11, ?t)]"
    by (simp add: heappush_def siftdown.simps)
  have q2: "snd (heappush [] (10 + 1, ?t)) = None"
    by (simp add: heappush_def siftdown.simps)
  have c0: "calls ?s = []" and s0: "slept ?s = 0"
    using schedule_effect [of default_config "submit_at 1 15" 7 "''high''" None initial_scheduler]
    by (simp_all add: initial_scheduler_def schedule_def Let_def split: prod.splits option.splits)
  from denied_task_retry [OF h1 h2 refl h4, of ?env]
  have "calls (fst (scheduler_iteration ?env ?s)) = [] \<and>
        task_queue (fst (scheduler_iteration ?env ?s)) = [(11, ?t)] \<and>
        slept (fst (scheduler_iteration ?env ?s)) = 61"
    by (simp only: p q1 q2 c0 s0 if_True simp_thms)
  with h1 h2 h4 p show ?thesis by blast
qed

text \<open>
  Claim C5 as stated fails: a normal task submitted at 21 percent battery is denied (its
  predicted drain would take the battery below the threshold), its priority value is 50,
  and the loop drops it instead of putting it back.
\<close>

theorem normal_unsafe_denied_dropped:
  "\<not> should_execute (new_task default_config (submit_at 1 21) 0 ''normal'' None) \<and>
   task_queue (fst (schedule default_config (submit_at 1 21) 0 ''normal'' None initial_scheduler))
     = [(50, new_task default_config (submit_at 1 21) 0 ''normal'' None)] \<and>
   task_queue (fst (scheduler_iteration (pass_with Returns (Some 21) (Some 21))
      (fst (schedule default_config (submit_at 1 21) 0 ''normal'' None initial_scheduler)))) = []"
  by (simp add: eval_defs)

text \<open>
  When the task's callable raises an exception, \<open>_execute_task\<close> returns normally, logs
  the failure, and records a drain: the difference of the two battery readings when both
  are true in a condition, and zero otherwise. The pass of the loop ends normally, with
  the task off the queue.
\<close>

lemma execute_task_raises:
  assumes "outcome env = Raises e"
  shows "snd (execute_task env t s) = None \<and>
         history (fst (execute_task env t s)) = history s @
           [\<lparr>record_task_id = task_id t,
             actual_drain = (if truthy (battery_before env) \<and> truthy (battery_after env)
                             then the (battery_before env) - the (battery_after env) else 0),
             timestamp = record_time env\<rparr>] \<and>
         logged (fst (execute_task env t s)) = logged s @
           [ExecutingTask (task_id t), TaskExecutionFailed (task_id t) e,
            TaskCompleted (task_id t) (end_time env - start_time env)
              (if truthy (battery_before env) \<and> truthy (battery_after env)
               then the (battery_before env) - the (battery_after env) else 0)]"
  using assms by (simp add: execute_task_def Let_def record_actual_drain_def)

lemma failed_task_does_not_stop_loop:
  assumes "task_queue s \<noteq> []"
    and "heappop (task_queue s) = (q, Inr (prio, t))"
    and "should_execute t"
    and "outcome env = Raises e"
  shows "snd (scheduler_iteration env s) = None \<and>
         task_queue (fst (scheduler_iteration env s)) = q \<and>
         TaskExecutionFailed (task_id t) e \<in> set (logged (fst (scheduler_iteration env s))) \<and>
         map record_task_id (history (fst (scheduler_iteration env s)))
           = map record_task_id (history s) @ [task_id t]"
  using assms
  by (simp add: scheduler_iteration_def execute_task_def Let_def sleep_def record_actual_drain_def)

text \<open>
  Claim C9: the failure of the callable is caught and a drain is recorded, but a battery
  reading of zero is taken for a missing one: with the battery at 1 percent before and
  0 percent after the failed task, both readings are available and differ by 1, and the
  drain recorded is 0.
\<close>

theorem zero_reading_taken_as_unavailable:
  "history (run default_config
      [Submit (submit_at 1 80) 0 ''normal'' None,
       Iterate (pass_with (Raises ''boom'') (Some 1) (Some 0))] initial_scheduler)
   = [\<lparr>record_task_id = ''task_1000'', actual_drain = 0, timestamp = 11\<rparr>]"
  by (simp add: eval_defs)

end
